theory Spec2Isabelle
  imports Complex_Main "HOL-Library.Sublist"
begin

section \<open>JavaScript string primitives used by the parser\<close>

text \<open>
  Strings are lists of characters. \<open>trim\<close> removes the white space and line
  terminators of ECMAScript's \<open>String.prototype.trim\<close> that exist in the
  one-byte range: TAB, LF, VT, FF, CR, SPACE and NBSP.
\<close>

definition isWhiteSpace :: "char \<Rightarrow> bool" where
  "isWhiteSpace c = ((of_char c :: nat) \<in> {9, 10, 11, 12, 13, 32, 160})"

definition trim :: "string \<Rightarrow> string" where
  "trim s = rev (dropWhile isWhiteSpace (rev (dropWhile isWhiteSpace s)))"

text \<open>\<open>s.endsWith(t)\<close>.\<close>

definition endsWith :: "string \<Rightarrow> string \<Rightarrow> bool" where
  "endsWith s t = (length t \<le> length s \<and> drop (length s - length t) s = t)"

text \<open>
  \<open>s.slice(a, b)\<close> on integer arguments: a negative index counts from the end,
  both indices are clamped to the string.
\<close>

definition slice :: "string \<Rightarrow> int \<Rightarrow> int \<Rightarrow> string" where
  "slice s a b =
     (let n = int (length s);
          from = (if a < 0 then max (n + a) 0 else min a n);
          to = (if b < 0 then max (n + b) 0 else min b n)
      in take (nat (to - from)) (drop (nat from) s))"

text \<open>\<open>s.slice(a)\<close>.\<close>

definition slice_from :: "string \<Rightarrow> int \<Rightarrow> string" where
  "slice_from s a = slice s a (int (length s))"

definition startsWith :: "string \<Rightarrow> string \<Rightarrow> bool" where
  "startsWith s t = (take (length t) s = t)"

text \<open>\<open>s.indexOf(t)\<close> and \<open>s.lastIndexOf(t)\<close>; \<open>-1\<close> when \<open>t\<close> does not occur.\<close>

fun indexOf_at :: "nat \<Rightarrow> string \<Rightarrow> string \<Rightarrow> int" where
  "indexOf_at i [] t = (if t = [] then int i else - 1)"
| "indexOf_at i (c # cs) t =
     (if startsWith (c # cs) t then int i else indexOf_at (Suc i) cs t)"

definition indexOf :: "string \<Rightarrow> string \<Rightarrow> int" where
  "indexOf s t = indexOf_at 0 s t"

fun lastIndexOf_at :: "nat \<Rightarrow> string \<Rightarrow> string \<Rightarrow> int" where
  "lastIndexOf_at i [] t = (if t = [] then int i else - 1)"
| "lastIndexOf_at i (c # cs) t =
     (let later = lastIndexOf_at (Suc i) cs t
      in if later \<noteq> - 1 then later
         else if startsWith (c # cs) t then int i else - 1)"

definition lastIndexOf :: "string \<Rightarrow> string \<Rightarrow> int" where
  "lastIndexOf s t = lastIndexOf_at 0 s t"

section \<open>Content blocks\<close>

record TextContent =
  content :: string
  text_partial :: bool

record ToolUse =
  name :: string
  params :: "(string \<times> string) list"
  tool_partial :: bool

datatype AssistantMessageContent = Text TextContent | Tool ToolUse

fun partial :: "AssistantMessageContent \<Rightarrow> bool" where
  "partial (Text t) = text_partial t"
| "partial (Tool u) = tool_partial u"

text \<open>
  \<open>params[k] = v\<close> on an object with string keys: an existing key keeps its
  place and takes the new value, a new key goes to the end.
\<close>

fun set_param :: "string \<Rightarrow> string \<Rightarrow> (string \<times> string) list \<Rightarrow> (string \<times> string) list" where
  "set_param k v [] = [(k, v)]"
| "set_param k v (p # ps) = (if fst p = k then (k, v) # ps else p # set_param k v ps)"

section \<open>parseAssistantMessage\<close>

text \<open>
  The local variables of \<open>parseAssistantMessage\<close>. The vocabulary
  (\<open>toolUseNames\<close>, \<open>toolParamNames\<close>) is imported by the source from a module
  outside the verified files; it is a parameter of every definition below.
\<close>

record parser_state =
  contentBlocks :: "AssistantMessageContent list"
  currentTextContent :: "TextContent option"
  currentTextContentStartIndex :: nat
  currentToolUse :: "ToolUse option"
  currentToolUseStartIndex :: nat
  currentParamName :: "string option"
  currentParamValueStartIndex :: nat
  accumulator :: string

definition initial_state :: parser_state where
  "initial_state =
     \<lparr>contentBlocks = [], currentTextContent = None, currentTextContentStartIndex = 0,
      currentToolUse = None, currentToolUseStartIndex = 0,
      currentParamName = None, currentParamValueStartIndex = 0, accumulator = []\<rparr>"

definition opening_tag :: "string \<Rightarrow> string" where
  "opening_tag n = ''<'' @ n @ ''>''"

definition closing_tag :: "string \<Rightarrow> string" where
  "closing_tag n = ''</'' @ n @ ''>''"

text \<open>The branch \<open>if (currentToolUse && currentParamName)\<close>.\<close>

definition in_param :: "ToolUse \<Rightarrow> string \<Rightarrow> parser_state \<Rightarrow> parser_state" where
  "in_param tu pn st =
     (let currentParamValue = slice_from (accumulator st) (int (currentParamValueStartIndex st));
          paramClosingTag = closing_tag pn
      in if endsWith currentParamValue paramClosingTag
         then st\<lparr>currentToolUse :=
                    Some (tu\<lparr>params := set_param pn
                       (trim (slice currentParamValue 0 (- int (length paramClosingTag))))
                       (params tu)\<rparr>),
                 currentParamName := None\<rparr>
         else st)"

text \<open>The special case for \<open>write_to_file\<close>, inside the branch \<open>if (currentToolUse)\<close>.\<close>

definition write_to_file_content :: "ToolUse \<Rightarrow> parser_state \<Rightarrow> parser_state" where
  "write_to_file_content tu st =
     (let contentParamName = ''content''
      in if name tu = ''write_to_file'' \<and> endsWith (accumulator st) (closing_tag contentParamName)
         then
           (let toolContent = slice_from (accumulator st) (int (currentToolUseStartIndex st));
                contentStartTag = opening_tag contentParamName;
                contentEndTag = closing_tag contentParamName;
                contentStartIndex = indexOf toolContent contentStartTag + int (length contentStartTag);
                contentEndIndex = lastIndexOf toolContent contentEndTag
            in if contentStartIndex \<noteq> - 1 \<and> contentEndIndex \<noteq> - 1 \<and> contentEndIndex > contentStartIndex
               then st\<lparr>currentToolUse :=
                          Some (tu\<lparr>params := set_param contentParamName
                             (trim (slice toolContent contentStartIndex contentEndIndex))
                             (params tu)\<rparr>)\<rparr>
               else st)
         else st)"

text \<open>The branch \<open>if (currentToolUse)\<close>, reached with no parameter open.\<close>

definition in_tool :: "string list \<Rightarrow> ToolUse \<Rightarrow> parser_state \<Rightarrow> parser_state" where
  "in_tool toolParamNames tu st =
     (let currentToolValue = slice_from (accumulator st) (int (currentToolUseStartIndex st));
          toolUseClosingTag = closing_tag (name tu)
      in if endsWith currentToolValue toolUseClosingTag
         then st\<lparr>contentBlocks := contentBlocks st @ [Tool (tu\<lparr>tool_partial := False\<rparr>)],
                 currentToolUse := None\<rparr>
         else
           (let possibleParamOpeningTags = map opening_tag toolParamNames;
                st1 = (case find (endsWith (accumulator st)) possibleParamOpeningTags of
                         Some paramOpeningTag \<Rightarrow>
                           st\<lparr>currentParamName := Some (slice paramOpeningTag 1 (- 1)),
                              currentParamValueStartIndex := length (accumulator st)\<rparr>
                       | None \<Rightarrow> st)
            in write_to_file_content tu st1))"

text \<open>The rest of the loop body, reached with no tool open; \<open>i\<close> is the loop index.\<close>

definition outside :: "string list \<Rightarrow> nat \<Rightarrow> parser_state \<Rightarrow> parser_state" where
  "outside toolUseNames i st =
     (let possibleToolUseOpeningTags = map opening_tag toolUseNames
      in case find (endsWith (accumulator st)) possibleToolUseOpeningTags of
           Some toolUseOpeningTag \<Rightarrow>
             st\<lparr>currentToolUse :=
                  Some \<lparr>name = slice toolUseOpeningTag 1 (- 1), params = [], tool_partial = True\<rparr>,
                currentToolUseStartIndex := length (accumulator st),
                contentBlocks :=
                  (case currentTextContent st of
                     Some t \<Rightarrow>
                       contentBlocks st @
                         [Text (t\<lparr>text_partial := False,
                                  content := trim (slice (content t) 0
                                     (- int (length (slice toolUseOpeningTag 0 (- 1)))))\<rparr>)]
                   | None \<Rightarrow> contentBlocks st),
                currentTextContent := None\<rparr>
         | None \<Rightarrow>
             (let start = (if currentTextContent st = None then i
                           else currentTextContentStartIndex st)
              in st\<lparr>currentTextContentStartIndex := start,
                    currentTextContent :=
                      Some \<lparr>content = trim (slice_from (accumulator st) (int start)),
                            text_partial = True\<rparr>\<rparr>))"

text \<open>
  One iteration of the \<open>for\<close> loop at index \<open>i\<close> on character \<open>c\<close>. The parameter
  name is used as a condition: it counts as set when it is defined and not the empty string.
\<close>

definition loop_body :: "string list \<Rightarrow> string list \<Rightarrow> nat \<Rightarrow> char \<Rightarrow> parser_state \<Rightarrow> parser_state" where
  "loop_body toolUseNames toolParamNames i c st0 =
     (let st = st0\<lparr>accumulator := accumulator st0 @ [c]\<rparr>
      in case currentToolUse st of
           Some tu \<Rightarrow>
             (case currentParamName st of
                Some pn \<Rightarrow> if pn \<noteq> [] then in_param tu pn st else in_tool toolParamNames tu st
              | None \<Rightarrow> in_tool toolParamNames tu st)
         | None \<Rightarrow> outside toolUseNames i st)"

text \<open>The loop \<open>for (let i = 0; i < assistantMessage.length; i++)\<close>, from index \<open>i\<close> on.\<close>

fun loop :: "string list \<Rightarrow> string list \<Rightarrow> nat \<Rightarrow> string \<Rightarrow> parser_state \<Rightarrow> parser_state" where
  "loop toolUseNames toolParamNames i [] st = st"
| "loop toolUseNames toolParamNames i (c # cs) st =
     loop toolUseNames toolParamNames (Suc i) cs (loop_body toolUseNames toolParamNames i c st)"

definition scan :: "string list \<Rightarrow> string list \<Rightarrow> string \<Rightarrow> parser_state" where
  "scan toolUseNames toolParamNames assistantMessage =
     loop toolUseNames toolParamNames 0 assistantMessage initial_state"

text \<open>The code after the loop: the open tool, then the open text, are appended.\<close>

definition finish :: "parser_state \<Rightarrow> AssistantMessageContent list" where
  "finish st =
     (let blocks =
        (case currentToolUse st of
           Some tu \<Rightarrow>
             contentBlocks st @
               [Tool (case currentParamName st of
                        Some pn \<Rightarrow>
                          if pn \<noteq> []
                          then tu\<lparr>params := set_param pn
                                 (trim (slice_from (accumulator st) (int (currentParamValueStartIndex st))))
                                 (params tu)\<rparr>
                          else tu
                      | None \<Rightarrow> tu)]
         | None \<Rightarrow> contentBlocks st)
      in case currentTextContent st of
           Some t \<Rightarrow> blocks @ [Text t]
         | None \<Rightarrow> blocks)"

definition parseAssistantMessage :: "string list \<Rightarrow> string list \<Rightarrow> string \<Rightarrow> AssistantMessageContent list" where
  "parseAssistantMessage toolUseNames toolParamNames assistantMessage =
     finish (scan toolUseNames toolParamNames assistantMessage)"

section \<open>The loop invariant\<close>

text \<open>
  Every block already pushed is closed; an open text block and an open tool are both
  marked partial, and an open text block excludes an open tool.
\<close>

definition parser_inv :: "parser_state \<Rightarrow> bool" where
  "parser_inv st =
     (list_all (\<lambda>b. \<not> partial b) (contentBlocks st) \<and>
      (case currentTextContent st of
         None \<Rightarrow> True
       | Some t \<Rightarrow> text_partial t \<and> currentToolUse st = None) \<and>
      (case currentToolUse st of None \<Rightarrow> True | Some u \<Rightarrow> tool_partial u))"

section \<open>Curated vocabularies\<close>

text \<open>
  The names of the vocabulary are meant to be identifiers. What the proofs about tagged
  input need of a name: it is not empty and holds no angle bracket, no slash and no white
  space.
\<close>


definition tag_name :: "string \<Rightarrow> bool" where
  "tag_name n =
     (n \<noteq> [] \<and>
      list_all (\<lambda>c. c \<noteq> CHR ''<'' \<and> c \<noteq> CHR ''>'' \<and> c \<noteq> CHR ''/'' \<and> \<not> isWhiteSpace c) n)"


section \<open>Stream chunks of the provider handlers\<close>

text \<open>
  The chunks a handler yields, as the object literals of the two handlers build them:
  \<open>{type: "text", text}\<close>, \<open>{type: "reasoning", text}\<close> and
  \<open>{type: "usage", inputTokens, outputTokens, cacheWriteTokens?, cacheReadTokens?}\<close>.
  A token count is an integer; an optional field is \<open>None\<close> when it is \<open>undefined\<close>,
  \<open>null\<close> or absent.
\<close>

record ApiStreamUsageChunk =
  inputTokens :: int
  outputTokens :: int
  cacheWriteTokens :: "int option"
  cacheReadTokens :: "int option"

datatype ApiStreamChunk =
    ApiStreamTextChunk string
  | ApiStreamReasoningChunk string
  | UsageChunk ApiStreamUsageChunk

text \<open>\<open>x || 0\<close> and \<open>x || undefined\<close> on an optional count: zero is falsy.\<close>

definition or_zero :: "int option \<Rightarrow> int" where
  "or_zero x = (case x of None \<Rightarrow> 0 | Some n \<Rightarrow> if n = 0 then 0 else n)"

definition or_undefined :: "int option \<Rightarrow> int option" where
  "or_undefined x = (case x of None \<Rightarrow> None | Some n \<Rightarrow> if n = 0 then None else Some n)"

section \<open>AnthropicHandler\<close>

subsection \<open>getModel\<close>

text \<open>
  The fields of \<open>ApiHandlerOptions\<close> and \<open>ModelInfo\<close> that the two handlers read.
  The table \<open>anthropicModels\<close> and \<open>anthropicDefaultModelId\<close> are imported by the source
  from a module outside the verified files; they are parameters of \<open>getModel\<close>.
\<close>

record ModelInfo =
  info_maxTokens :: "int option"
  info_thinking :: "bool option"

record ApiHandlerOptions =
  apiModelId :: "string option"
  modelTemperature :: "real option"
  modelMaxTokens :: "int option"
  modelMaxThinkingTokens :: "int option"
  openAiBaseUrl :: "string option"
  openAiModelId :: "string option"
  openAiStreamingEnabled :: "bool option"
  includeMaxTokens :: "bool option"
  openAiCustomModelInfo :: "ModelInfo option"

datatype BetaThinkingConfigParam = Enabled (budget_tokens: int)

record ModelSelection =
  model_id :: string
  info :: ModelInfo
  temperature :: real
  maxTokens :: int
  thinking :: "BetaThinkingConfigParam option"







subsection \<open>createMessage: the request\<close>

datatype Role = User | Assistant

datatype CacheControlEphemeral = Ephemeral

datatype BlockBody = TextBody string | ImageBody string

record ContentBlockParam =
  block_body :: BlockBody
  cache_control :: "CacheControlEphemeral option"

datatype MessageContent = Plain string | Blocks "ContentBlockParam list"

record MessageParam =
  role :: Role
  message_content :: MessageContent

record SystemBlock =
  system_text :: string
  system_cache_control :: "CacheControlEphemeral option"

record MessageCreateParams =
  req_model :: string
  req_max_tokens :: int
  req_temperature :: real
  req_thinking :: "BetaThinkingConfigParam option"
  req_system :: "SystemBlock list"
  req_messages :: "MessageParam list"
  req_stream :: bool
  req_headers :: "(string \<times> string) list option"

text \<open>\<open>messages.reduce((acc, msg, index) => ...)\<close>, from index \<open>i\<close> on.\<close>

fun userMsgIndices_from :: "nat \<Rightarrow> MessageParam list \<Rightarrow> nat list \<Rightarrow> nat list" where
  "userMsgIndices_from i [] acc = acc"
| "userMsgIndices_from i (msg # msgs) acc =
     userMsgIndices_from (Suc i) msgs (if role msg = User then acc @ [i] else acc)"

definition userMsgIndices :: "MessageParam list \<Rightarrow> nat list" where
  "userMsgIndices messages = userMsgIndices_from 0 messages []"

text \<open>\<open>xs[k] ?? -1\<close> for an integer \<open>k\<close> that may be negative.\<close>

definition index_or_minus_one :: "nat list \<Rightarrow> int \<Rightarrow> int" where
  "index_or_minus_one xs k =
     (if 0 \<le> k \<and> k < int (length xs) then int (xs ! nat k) else - 1)"

text \<open>\<open>message.content.map((content, contentIndex) => ...)\<close>, from index \<open>j\<close> on.\<close>

fun mark_last_from :: "nat \<Rightarrow> nat \<Rightarrow> ContentBlockParam list \<Rightarrow> ContentBlockParam list" where
  "mark_last_from len j [] = []"
| "mark_last_from len j (c # cs) =
     (if int j = int len - 1 then c\<lparr>cache_control := Some Ephemeral\<rparr> else c) #
       mark_last_from len (Suc j) cs"

definition with_cache_control :: "MessageParam \<Rightarrow> MessageParam" where
  "with_cache_control message =
     message\<lparr>message_content :=
       (case message_content message of
          Plain s \<Rightarrow> Blocks [\<lparr>block_body = TextBody s, cache_control = Some Ephemeral\<rparr>]
        | Blocks cs \<Rightarrow> Blocks (mark_last_from (length cs) 0 cs))\<rparr>"

text \<open>\<open>messages.map((message, index) => ...)\<close>, from index \<open>i\<close> on.\<close>

fun map_messages_from :: "int \<Rightarrow> int \<Rightarrow> nat \<Rightarrow> MessageParam list \<Rightarrow> MessageParam list" where
  "map_messages_from lastUserMsgIndex secondLastMsgUserIndex i [] = []"
| "map_messages_from lastUserMsgIndex secondLastMsgUserIndex i (message # rest) =
     (if int i = lastUserMsgIndex \<or> int i = secondLastMsgUserIndex
      then with_cache_control message else message) #
       map_messages_from lastUserMsgIndex secondLastMsgUserIndex (Suc i) rest"

definition prompt_caching_models :: "string list" where
  "prompt_caching_models =
     [''claude-3-7-sonnet-20250219'', ''claude-3-5-sonnet-20241022'',
      ''claude-3-5-haiku-20241022'', ''claude-3-opus-20240229'', ''claude-3-haiku-20240307'']"

text \<open>The argument of \<open>this.client.messages.create\<close> in \<open>createMessage\<close>.\<close>

definition createMessage_request ::
  "ModelSelection \<Rightarrow> string \<Rightarrow> MessageParam list \<Rightarrow> MessageCreateParams" where
  "createMessage_request m systemPrompt messages =
     (if model_id m \<in> set prompt_caching_models
      then
        (let indices = userMsgIndices messages;
             lastUserMsgIndex = index_or_minus_one indices (int (length indices) - 1);
             secondLastMsgUserIndex = index_or_minus_one indices (int (length indices) - 2)
         in \<lparr>req_model = model_id m, req_max_tokens = maxTokens m,
              req_temperature = temperature m, req_thinking = thinking m,
              req_system = [\<lparr>system_text = systemPrompt, system_cache_control = Some Ephemeral\<rparr>],
              req_messages = map_messages_from lastUserMsgIndex secondLastMsgUserIndex 0 messages,
              req_stream = True,
              req_headers =
                (if model_id m \<in> set [''claude-3-5-sonnet-20241022'', ''claude-3-5-haiku-20241022'',
                                        ''claude-3-opus-20240229'', ''claude-3-haiku-20240307'']
                 then Some [(''anthropic-beta'', ''prompt-caching-2024-07-31'')]
                 else None)\<rparr>)
      else
        \<lparr>req_model = model_id m, req_max_tokens = maxTokens m,
         req_temperature = temperature m, req_thinking = None,
         req_system = [\<lparr>system_text = systemPrompt, system_cache_control = None\<rparr>],
         req_messages = messages, req_stream = True, req_headers = None\<rparr>)"

subsection \<open>createMessage: the stream\<close>








subsection \<open>The cache markers, in the words of the specification\<close>

text \<open>
  Stated from the specification, to be compared with \<open>createMessage_request\<close>:
  message \<open>i\<close> is the last or the second-to-last message with the user role when it has
  the user role and fewer than two messages after it have it.
\<close>

definition is_last_or_second_last_user :: "MessageParam list \<Rightarrow> nat \<Rightarrow> bool" where
  "is_last_or_second_last_user messages i =
     (i < length messages \<and> role (messages ! i) = User \<and>
      length (filter (\<lambda>msg. role msg = User) (drop (Suc i) messages)) < 2)"

text \<open>
  Stated from the specification: a message with the marker. A plain string becomes one
  text part with the marker; of a list of parts only the last one takes the marker.
\<close>

definition marked_on_last_part :: "MessageParam \<Rightarrow> MessageParam" where
  "marked_on_last_part message =
     \<lparr>role = role message,
      message_content =
        (case message_content message of
           Plain s \<Rightarrow> Blocks [\<lparr>block_body = TextBody s, cache_control = Some Ephemeral\<rparr>]
         | Blocks cs \<Rightarrow>
             Blocks (if cs = [] then []
                     else butlast cs @ [(last cs)\<lparr>cache_control := Some Ephemeral\<rparr>]))\<rparr>"

section \<open>OpenAiHandler\<close>

text \<open>
  The chat-completion objects of the OpenAI client, reduced to the fields that
  \<open>createMessage\<close> reads. The converters \<open>convertToOpenAiMessages\<close>,
  \<open>convertToR1Format\<close> and \<open>convertToSimpleMessages\<close> and the constant
  \<open>openAiModelInfoSaneDefaults\<close> are imported by the source from modules outside the
  verified files; they are parameters, collected in \<open>OpenAiEnvironment\<close> together with
  the two ways of calling the provider.
\<close>

record CompletionUsage =
  prompt_tokens :: "int option"
  completion_tokens :: "int option"

record ChatCompletionChoice =
  choice_content :: "string option"

record ChatCompletion =
  choices :: "ChatCompletionChoice list"
  usage :: "CompletionUsage option"

record ChunkDelta =
  delta_content :: "string option"
  reasoning_content :: "string option"

record ChatCompletionChunk =
  chunk_choices :: "ChunkDelta option list"
  chunk_usage :: "CompletionUsage option"

datatype ChatCompletionMessageParam =
  ChatMessage (chat_role: string) (chat_content: MessageContent)

record ChatCompletionCreateParams =
  oa_model :: string
  oa_temperature :: "real option"
  oa_messages :: "ChatCompletionMessageParam list"
  oa_stream :: bool
  oa_include_usage :: bool
  oa_max_tokens :: "int option option"

datatype provider_error = ProviderError string

record OpenAiEnvironment =
  convertToOpenAiMessages :: "MessageParam list \<Rightarrow> ChatCompletionMessageParam list"
  convertToR1Format :: "MessageParam list \<Rightarrow> ChatCompletionMessageParam list"
  convertToSimpleMessages :: "MessageParam list \<Rightarrow> ChatCompletionMessageParam list"
  openAiModelInfoSaneDefaults :: ModelInfo
  create_streaming :: "ChatCompletionCreateParams \<Rightarrow> provider_error + ChatCompletionChunk list"
  create_completion :: "ChatCompletionCreateParams \<Rightarrow> provider_error + ChatCompletion"

datatype OpenAiCall =
    StreamingCall ChatCompletionCreateParams
  | NonStreamingCall ChatCompletionCreateParams

definition DEEP_SEEK_DEFAULT_TEMPERATURE :: real where
  "DEEP_SEEK_DEFAULT_TEMPERATURE = 0.6"

definition OPENAI_DEFAULT_TEMPERATURE :: real where
  "OPENAI_DEFAULT_TEMPERATURE = 0"

text \<open>\<open>processUsageMetrics(usage)\<close>, with \<open>usage?.prompt_tokens || 0\<close>.\<close>

definition processUsageMetrics :: "CompletionUsage option \<Rightarrow> ApiStreamChunk" where
  "processUsageMetrics u =
     UsageChunk
       \<lparr>inputTokens = or_zero (case u of None \<Rightarrow> None | Some x \<Rightarrow> prompt_tokens x),
        outputTokens = or_zero (case u of None \<Rightarrow> None | Some x \<Rightarrow> completion_tokens x),
        cacheWriteTokens = None, cacheReadTokens = None\<rparr>"

text \<open>\<open>getModel().info\<close> of the OpenAI handler.\<close>

definition openai_model_info :: "OpenAiEnvironment \<Rightarrow> ApiHandlerOptions \<Rightarrow> ModelInfo" where
  "openai_model_info env options =
     (case openAiCustomModelInfo options of
        Some i \<Rightarrow> i
      | None \<Rightarrow> openAiModelInfoSaneDefaults env)"

text \<open>The body of the streaming loop: what one chunk yields.\<close>

definition openai_chunk_events :: "ChatCompletionChunk \<Rightarrow> ApiStreamChunk list" where
  "openai_chunk_events chunk =
     (let delta =
            (case chunk_choices chunk of
               Some d # _ \<Rightarrow> d
             | _ \<Rightarrow> \<lparr>delta_content = None, reasoning_content = None\<rparr>)
      in (case delta_content delta of
            Some s \<Rightarrow> if s \<noteq> [] then [ApiStreamTextChunk s] else []
          | None \<Rightarrow> []) @
         (case reasoning_content delta of
            Some s \<Rightarrow> if s \<noteq> [] then [ApiStreamReasoningChunk s] else []
          | None \<Rightarrow> []) @
         (case chunk_usage chunk of
            Some u \<Rightarrow> [processUsageMetrics (Some u)]
          | None \<Rightarrow> []))"

fun openai_stream_events :: "ChatCompletionChunk list \<Rightarrow> ApiStreamChunk list" where
  "openai_stream_events [] = []"
| "openai_stream_events (chunk # stream) = openai_chunk_events chunk @ openai_stream_events stream"

text \<open>\<open>s.includes(t)\<close>.\<close>

definition string_includes :: "string \<Rightarrow> string \<Rightarrow> bool" where
  "string_includes s t = sublist t s"

text \<open>
  \<open>createMessage\<close> of the OpenAI handler. The result is the list of the calls made to
  the provider and, unless a call fails, the chunks yielded.
\<close>

definition openai_createMessage ::
  "OpenAiEnvironment \<Rightarrow> ApiHandlerOptions \<Rightarrow> string \<Rightarrow> MessageParam list \<Rightarrow>
   OpenAiCall list \<times> (provider_error + ApiStreamChunk list)" where
  "openai_createMessage env options systemPrompt messages =
     (let modelInfo = openai_model_info env options;
          modelUrl = (case openAiBaseUrl options of Some u \<Rightarrow> u | None \<Rightarrow> []);
          modelId = (case openAiModelId options of Some m \<Rightarrow> m | None \<Rightarrow> []);
          deepseekReasoner = string_includes modelId ''deepseek-reasoner'';
          ark = string_includes modelUrl ''.volces.com''
      in if (case openAiStreamingEnabled options of Some b \<Rightarrow> b | None \<Rightarrow> True)
         then
           (let systemMessage = ChatMessage ''system'' (Plain systemPrompt);
                convertedMessages =
                  (if deepseekReasoner
                   then convertToR1Format env
                          (\<lparr>role = User, message_content = Plain systemPrompt\<rparr> # messages)
                   else if ark then systemMessage # convertToSimpleMessages env messages
                   else systemMessage # convertToOpenAiMessages env messages);
                requestOptions =
                  \<lparr>oa_model = modelId,
                   oa_temperature =
                     Some (case modelTemperature options of
                             Some t \<Rightarrow> t
                           | None \<Rightarrow>
                               if deepseekReasoner then DEEP_SEEK_DEFAULT_TEMPERATURE
                               else OPENAI_DEFAULT_TEMPERATURE),
                   oa_messages = convertedMessages,
                   oa_stream = True,
                   oa_include_usage = True,
                   oa_max_tokens =
                     (if includeMaxTokens options = Some True
                      then Some (info_maxTokens modelInfo) else None)\<rparr>
            in ([StreamingCall requestOptions],
                case create_streaming env requestOptions of
                  Inl e \<Rightarrow> Inl e
                | Inr stream \<Rightarrow> Inr (openai_stream_events stream)))
         else
           (let systemMessage = ChatMessage ''user'' (Plain systemPrompt);
                requestOptions =
                  \<lparr>oa_model = modelId,
                   oa_temperature = None,
                   oa_messages =
                     (if deepseekReasoner
                      then convertToR1Format env
                             (\<lparr>role = User, message_content = Plain systemPrompt\<rparr> # messages)
                      else systemMessage # convertToOpenAiMessages env messages),
                   oa_stream = False,
                   oa_include_usage = False,
                   oa_max_tokens = None\<rparr>
            in ([NonStreamingCall requestOptions],
                case create_completion env requestOptions of
                  Inl e \<Rightarrow> Inl e
                | Inr response \<Rightarrow>
                    Inr [ApiStreamTextChunk
                           (case choices response of
                              [] \<Rightarrow> []
                            | c # _ \<Rightarrow> (case choice_content c of Some s \<Rightarrow> s | None \<Rightarrow> [])),
                         processUsageMetrics (usage response)])))"

section \<open>Facts about the string primitives\<close>

lemma endsWith_suffix: "endsWith s t \<longleftrightarrow> suffix t s"
proof
  assume "endsWith s t"
  then have "s = take (length s - length t) s @ t"
    by (metis append_take_drop_id endsWith_def)
  then show "suffix t s" by (metis suffixI)
next
  assume "suffix t s"
  then obtain zs where "s = zs @ t" by (auto simp: suffix_def)
  then show "endsWith s t" by (simp add: endsWith_def)
qed

lemma slice_from_nat [simp]: "slice_from s (int k) = drop k s"
  by (simp add: slice_from_def slice_def Let_def min_def)



lemma slice_opening_tag_name [simp]: "slice (opening_tag n) 1 (- 1) = n"
  by (simp add: slice_def opening_tag_def Let_def)

lemma length_slice_opening_tag [simp]: "length (slice (opening_tag n) 0 (- 1)) = Suc (length n)"
  by (simp add: slice_def opening_tag_def Let_def)

section \<open>The loop: accumulator and composition\<close>

lemma loop_append:
  "loop T P i (s @ t) st = loop T P (i + length s) t (loop T P i s st)"
  by (induction s arbitrary: i st) simp_all

lemma accumulator_in_param [simp]: "accumulator (in_param tu pn st) = accumulator st"
  by (simp add: in_param_def Let_def)

lemma accumulator_write_to_file_content [simp]:
  "accumulator (write_to_file_content tu st) = accumulator st"
  by (simp add: write_to_file_content_def Let_def)

lemma accumulator_in_tool [simp]: "accumulator (in_tool P tu st) = accumulator st"
  by (simp add: in_tool_def Let_def split: option.split)

lemma accumulator_outside [simp]: "accumulator (outside T i st) = accumulator st"
  by (simp add: outside_def Let_def split: option.split)

lemma accumulator_loop_body [simp]:
  "accumulator (loop_body T P i c st) = accumulator st @ [c]"
  by (simp add: loop_body_def Let_def split: option.split)

lemma accumulator_loop [simp]: "accumulator (loop T P i s st) = accumulator st @ s"
  by (induction s arbitrary: i st) simp_all

lemma scan_append: "scan T P (B @ S) = loop T P (length B) S (scan T P B)"
  by (simp add: scan_def loop_append)

lemma accumulator_scan [simp]: "accumulator (scan T P B) = B"
  by (simp add: scan_def initial_state_def)

section \<open>The invariant holds throughout the scan\<close>

lemma parser_inv_initial: "parser_inv initial_state"
  by (simp add: parser_inv_def initial_state_def)

lemma parser_inv_in_param:
  "parser_inv st \<Longrightarrow> currentToolUse st = Some tu \<Longrightarrow> parser_inv (in_param tu pn st)"
  by (simp add: parser_inv_def in_param_def Let_def split: option.splits)

lemma parser_inv_write_to_file_content:
  "parser_inv st \<Longrightarrow> currentToolUse st = Some tu \<Longrightarrow> parser_inv (write_to_file_content tu st)"
  by (simp add: parser_inv_def write_to_file_content_def Let_def split: option.splits)

lemma parser_inv_in_tool:
  assumes "parser_inv st" and "currentToolUse st = Some tu"
  shows "parser_inv (in_tool P tu st)"
proof (cases "endsWith (slice_from (accumulator st) (int (currentToolUseStartIndex st)))
                (closing_tag (name tu))")
  case True
  with assms show ?thesis
    by (simp add: parser_inv_def in_tool_def Let_def split: option.splits)
next
  case False
  define st1 where "st1 =
     (case find (endsWith (accumulator st)) (map opening_tag P) of
        Some paramOpeningTag \<Rightarrow>
          st\<lparr>currentParamName := Some (slice paramOpeningTag 1 (- 1)),
             currentParamValueStartIndex := length (accumulator st)\<rparr>
      | None \<Rightarrow> st)"
  have "parser_inv st1" and "currentToolUse st1 = Some tu"
    using assms by (simp_all add: st1_def parser_inv_def split: option.splits)
  then have "parser_inv (write_to_file_content tu st1)"
    by (rule parser_inv_write_to_file_content)
  with False show ?thesis
    by (simp add: in_tool_def Let_def st1_def)
qed

lemma parser_inv_outside:
  "parser_inv st \<Longrightarrow> currentToolUse st = None \<Longrightarrow> parser_inv (outside T i st)"
  by (simp add: parser_inv_def outside_def Let_def split: option.splits)

lemma parser_inv_loop_body: "parser_inv st \<Longrightarrow> parser_inv (loop_body T P i c st)"
proof -
  assume inv: "parser_inv st"
  let ?st = "st\<lparr>accumulator := accumulator st @ [c]\<rparr>"
  have inv': "parser_inv ?st" using inv by (simp add: parser_inv_def split: option.splits)
  show ?thesis
  proof (cases "currentToolUse st")
    case None
    then show ?thesis
      using parser_inv_outside [OF inv', of T i] by (simp add: loop_body_def Let_def)
  next
    case (Some tu)
    then have tu: "currentToolUse ?st = Some tu" by simp
    show ?thesis
      using Some parser_inv_in_param [OF inv' tu] parser_inv_in_tool [OF inv' tu]
      by (simp add: loop_body_def Let_def split: option.splits)
  qed
qed

lemma parser_inv_loop: "parser_inv st \<Longrightarrow> parser_inv (loop T P i s st)"
  by (induction s arbitrary: i st) (simp_all add: parser_inv_loop_body)

lemma parser_inv_scan: "parser_inv (scan T P B)"
  by (simp add: scan_def parser_inv_loop parser_inv_initial)

lemma prefix_contentBlocks_in_param: "contentBlocks (in_param tu pn st) = contentBlocks st"
  by (simp add: in_param_def Let_def)

lemma prefix_contentBlocks_write_to_file_content:
  "contentBlocks (write_to_file_content tu st) = contentBlocks st"
  by (simp add: write_to_file_content_def Let_def)

lemma prefix_contentBlocks_in_tool: "prefix (contentBlocks st) (contentBlocks (in_tool P tu st))"
  by (simp add: in_tool_def Let_def prefix_contentBlocks_write_to_file_content split: option.splits)

lemma prefix_contentBlocks_outside: "prefix (contentBlocks st) (contentBlocks (outside T i st))"
  by (simp add: outside_def Let_def split: option.splits)

lemma prefix_contentBlocks_loop_body:
  "prefix (contentBlocks st) (contentBlocks (loop_body T P i c st))"
proof -
  let ?st = "st\<lparr>accumulator := accumulator st @ [c]\<rparr>"
  have "prefix (contentBlocks ?st) (contentBlocks (in_tool P tu ?st))" for tu
    by (rule prefix_contentBlocks_in_tool)
  moreover have "prefix (contentBlocks ?st) (contentBlocks (outside T i ?st))"
    by (rule prefix_contentBlocks_outside)
  ultimately show ?thesis
    by (simp add: loop_body_def Let_def prefix_contentBlocks_in_param split: option.splits)
qed

lemma prefix_contentBlocks_loop: "prefix (contentBlocks st) (contentBlocks (loop T P i s st))"
proof (induction s arbitrary: i st)
  case Nil
  show ?case by simp
next
  case (Cons c s)
  have "prefix (contentBlocks st) (contentBlocks (loop_body T P i c st))"
    by (rule prefix_contentBlocks_loop_body)
  also have "prefix \<dots> (contentBlocks (loop T P (Suc i) s (loop_body T P i c st)))"
    by (rule Cons.IH)
  finally show ?case by simp
qed

lemma finish_cases:
  assumes "parser_inv st"
  shows "(currentToolUse st = None \<and> currentTextContent st = None \<and> finish st = contentBlocks st) \<or>
         (\<exists>b. partial b \<and> finish st = contentBlocks st @ [b] \<and>
              (currentToolUse st = None \<or> currentTextContent st = None))"
proof (cases "currentTextContent st")
  case (Some t)
  with assms have "text_partial t" and "currentToolUse st = None"
    by (simp_all add: parser_inv_def)
  with Some have "finish st = contentBlocks st @ [Text t]" and "partial (Text t)"
    by (simp_all add: finish_def)
  with \<open>currentToolUse st = None\<close> show ?thesis by blast
next
  case None
  show ?thesis
  proof (cases "currentToolUse st")
    case no_tool: None
    with None show ?thesis by (simp add: finish_def)
  next
    case (Some u)
    with assms have "tool_partial u" by (simp add: parser_inv_def)
    with Some None have "\<exists>b. partial b \<and> finish st = contentBlocks st @ [b]"
      by (simp add: finish_def split: option.splits)
    with None show ?thesis by blast
  qed
qed

lemma prefix_contentBlocks_finish: "prefix (contentBlocks st) (finish st)"
  by (simp add: finish_def Let_def split: option.splits)

lemma closed_block_of_finish:
  assumes "parser_inv st" and "i < length (finish st)" and "\<not> partial (finish st ! i)"
  shows "i < length (contentBlocks st) \<and> finish st ! i = contentBlocks st ! i"
proof -
  from finish_cases [OF assms(1)] show ?thesis
  proof
    assume "currentToolUse st = None \<and> currentTextContent st = None \<and> finish st = contentBlocks st"
    with assms(2) show ?thesis by simp
  next
    assume "\<exists>b. partial b \<and> finish st = contentBlocks st @ [b] \<and>
              (currentToolUse st = None \<or> currentTextContent st = None)"
    then obtain b where b: "partial b" "finish st = contentBlocks st @ [b]" by blast
    have "i \<noteq> length (contentBlocks st)"
      using assms(3) b by auto
    with assms(2) b(2) have "i < length (contentBlocks st)" by simp
    with b(2) show ?thesis by (simp add: nth_append)
  qed
qed

section \<open>C2: monotonic convergence\<close>

text \<open>
  Claim C2. For every buffer \<open>B\<close> and every suffix \<open>S\<close>, each block of
  \<open>parseAssistantMessage B\<close> that is not partial is found again, unchanged and at the
  same position, in \<open>parseAssistantMessage (B @ S)\<close>. The vocabulary is arbitrary.
\<close>

theorem monotonic_convergence:
  "\<forall>i < length (parseAssistantMessage T P B).
     \<not> partial (parseAssistantMessage T P B ! i) \<longrightarrow>
       i < length (parseAssistantMessage T P (B @ S)) \<and>
       parseAssistantMessage T P (B @ S) ! i = parseAssistantMessage T P B ! i"
proof (intro allI impI)
  fix i
  assume i: "i < length (parseAssistantMessage T P B)"
    and closed: "\<not> partial (parseAssistantMessage T P B ! i)"
  let ?st = "scan T P B" and ?st' = "scan T P (B @ S)"
  have in_blocks: "i < length (contentBlocks ?st) \<and> finish ?st ! i = contentBlocks ?st ! i"
    using closed_block_of_finish [OF parser_inv_scan, of i T P B] i closed
    by (simp add: parseAssistantMessage_def)
  have "prefix (contentBlocks ?st) (contentBlocks ?st')"
    by (simp add: scan_append prefix_contentBlocks_loop)
  also have "prefix \<dots> (finish ?st')"
    by (rule prefix_contentBlocks_finish)
  finally obtain rest where rest: "finish ?st' = contentBlocks ?st @ rest"
    by (auto simp: prefix_def)
  with in_blocks show "i < length (parseAssistantMessage T P (B @ S)) \<and>
       parseAssistantMessage T P (B @ S) ! i = parseAssistantMessage T P B ! i"
    by (simp add: parseAssistantMessage_def nth_append)
qed

theorem monotonic_convergence_witness:
  "1 < length (parseAssistantMessage [''read_file'', ''write_to_file''] [''path'', ''content'']
         ''hi <read_file><path>a</path></read_file>'') \<and>
   \<not> partial (parseAssistantMessage [''read_file'', ''write_to_file''] [''path'', ''content'']
         ''hi <read_file><path>a</path></read_file>'' ! 1) \<and>
   1 < length (parseAssistantMessage [''read_file'', ''write_to_file''] [''path'', ''content'']
         (''hi <read_file><path>a</path></read_file>'' @ '' bye'')) \<and>
   parseAssistantMessage [''read_file'', ''write_to_file''] [''path'', ''content'']
         (''hi <read_file><path>a</path></read_file>'' @ '' bye'') ! 1 =
   parseAssistantMessage [''read_file'', ''write_to_file''] [''path'', ''content'']
         ''hi <read_file><path>a</path></read_file>'' ! 1"
proof -
  let ?T = "[''read_file'', ''write_to_file'']" and ?P = "[''path'', ''content'']"
  let ?B = "''hi <read_file><path>a</path></read_file>''"
  have ev: "parseAssistantMessage ?T ?P ?B =
      [Text \<lparr>content = ''hi'', text_partial = False\<rparr>,
       Tool \<lparr>name = ''read_file'', params = [(''path'', ''a'')], tool_partial = False\<rparr>]"
    by code_simp
  have h1: "1 < length (parseAssistantMessage ?T ?P ?B)"
    and h2: "\<not> partial (parseAssistantMessage ?T ?P ?B ! 1)"
    by (simp_all add: ev)
  from monotonic_convergence [of ?T ?P ?B "'' bye''"] h1 h2 show ?thesis by blast
qed

section \<open>C5: at most one partial block, and it is the last one\<close>

text \<open>
  Claim C5. For every buffer, a partial block of the result can only be its last block, so
  there is at most one; at the end of the scan an open tool and an open text block never
  coexist, and every block pushed during the scan is closed.
\<close>

theorem at_most_one_partial_block_and_it_is_last:
  "(\<forall>i < length (parseAssistantMessage T P B).
      partial (parseAssistantMessage T P B ! i) \<longrightarrow> Suc i = length (parseAssistantMessage T P B)) \<and>
   length (filter partial (parseAssistantMessage T P B)) \<le> 1 \<and>
   \<not> (currentToolUse (scan T P B) \<noteq> None \<and> currentTextContent (scan T P B) \<noteq> None) \<and>
   list_all (\<lambda>b. \<not> partial b) (contentBlocks (scan T P B))"
proof -
  let ?st = "scan T P B"
  have inv: "parser_inv ?st" by (rule parser_inv_scan)
  then have closed: "list_all (\<lambda>b. \<not> partial b) (contentBlocks ?st)"
    by (simp add: parser_inv_def)
  then have none: "filter partial (contentBlocks ?st) = []"
    by (simp add: list_all_iff filter_empty_conv)
  have nth_closed: "\<not> partial (contentBlocks ?st ! i)" if "i < length (contentBlocks ?st)" for i
    using closed that by (simp add: list_all_length)
  from finish_cases [OF inv] show ?thesis
  proof
    assume a: "currentToolUse ?st = None \<and> currentTextContent ?st = None \<and>
               finish ?st = contentBlocks ?st"
    with closed none nth_closed show ?thesis
      by (simp add: parseAssistantMessage_def)
  next
    assume "\<exists>b. partial b \<and> finish ?st = contentBlocks ?st @ [b] \<and>
              (currentToolUse ?st = None \<or> currentTextContent ?st = None)"
    then obtain b where b: "partial b" "finish ?st = contentBlocks ?st @ [b]"
      and one: "currentToolUse ?st = None \<or> currentTextContent ?st = None" by blast
    have "Suc i = length (finish ?st)" if "i < length (finish ?st)" "partial (finish ?st ! i)" for i
    proof (cases "i < length (contentBlocks ?st)")
      case True
      with that(2) b(2) nth_closed [OF True] show ?thesis by (simp add: nth_append)
    next
      case False
      with that(1) b(2) show ?thesis by simp
    qed
    moreover have "length (filter partial (finish ?st)) \<le> 1"
      using b none by simp
    ultimately show ?thesis
      using one closed by (auto simp: parseAssistantMessage_def)
  qed
qed

theorem at_most_one_partial_block_and_it_is_last_witness:
  "1 < length (parseAssistantMessage [''read_file'', ''write_to_file''] [''path'', ''content'']
         ''<read_file><path>a'') \<and>
   partial (parseAssistantMessage [''read_file'', ''write_to_file''] [''path'', ''content'']
         ''<read_file><path>a'' ! 1) \<and>
   Suc 1 = length (parseAssistantMessage [''read_file'', ''write_to_file''] [''path'', ''content'']
         ''<read_file><path>a'')"
proof -
  let ?T = "[''read_file'', ''write_to_file'']" and ?P = "[''path'', ''content'']"
  let ?B = "''<read_file><path>a''"
  have ev: "parseAssistantMessage ?T ?P ?B =
      [Text \<lparr>content = [], text_partial = False\<rparr>,
       Tool \<lparr>name = ''read_file'', params = [(''path'', ''a'')], tool_partial = True\<rparr>]"
    by code_simp
  have h1: "1 < length (parseAssistantMessage ?T ?P ?B)"
    and h2: "partial (parseAssistantMessage ?T ?P ?B ! 1)"
    by (simp_all add: ev)
  from at_most_one_partial_block_and_it_is_last [of ?T ?P ?B] h1 h2 show ?thesis by blast
qed

section \<open>Characters that end no delimiter\<close>

lemma tag_nameD:
  assumes "tag_name n"
  shows "n \<noteq> []" and "CHR ''<'' \<notin> set n" and "CHR ''>'' \<notin> set n" and "CHR ''/'' \<notin> set n"
    and "\<not> isWhiteSpace (last n)"
proof -
  from assms show ne: "n \<noteq> []" by (simp add: tag_name_def)
  from assms have all: "\<forall>c\<in>set n. c \<noteq> CHR ''<'' \<and> c \<noteq> CHR ''>'' \<and> c \<noteq> CHR ''/'' \<and> \<not> isWhiteSpace c"
    by (simp add: tag_name_def list_all_iff)
  then show "CHR ''<'' \<notin> set n" "CHR ''>'' \<notin> set n" "CHR ''/'' \<notin> set n" by blast+
  from ne have "last n \<in> set n" by simp
  with all show "\<not> isWhiteSpace (last n)" by blast
qed













section \<open>Matching delimiters\<close>








section \<open>Scanning a whole delimiter\<close>


lemma length_opening_tag [simp]: "length (opening_tag n) = length n + 2"
  by (simp add: opening_tag_def)








section \<open>A tool call with one parameter\<close>







section \<open>Input without a tool delimiter\<close>


lemma loop_body_text:
  assumes "currentToolUse st = None"
    and "find (endsWith (accumulator st @ [c])) (map opening_tag T) = None"
  shows "loop_body T P i c st =
    st\<lparr>accumulator := accumulator st @ [c],
       currentTextContentStartIndex :=
         (if currentTextContent st = None then i else currentTextContentStartIndex st),
       currentTextContent :=
         Some \<lparr>content = trim (drop
                  (if currentTextContent st = None then i else currentTextContentStartIndex st)
                  (accumulator st @ [c])),
               text_partial = True\<rparr>\<rparr>"
  using assms by (simp add: loop_body_def outside_def Let_def)

lemma run_text_no_tag:
  "currentToolUse st = None \<Longrightarrow>
   \<forall>n\<in>set T. \<not> sublist (opening_tag n) (accumulator st @ s) \<Longrightarrow> s \<noteq> [] \<Longrightarrow>
   loop T P i s st =
    st\<lparr>accumulator := accumulator st @ s,
       currentTextContentStartIndex :=
         (if currentTextContent st = None then i else currentTextContentStartIndex st),
       currentTextContent :=
         Some \<lparr>content = trim (drop
                  (if currentTextContent st = None then i else currentTextContentStartIndex st)
                  (accumulator st @ s)),
               text_partial = True\<rparr>\<rparr>"
proof (induction s arbitrary: i st)
  case Nil
  then show ?case by simp
next
  case (Cons c s)
  have none: "find (endsWith (accumulator st @ [c])) (map opening_tag T) = None"
  proof -
    have "\<not> endsWith (accumulator st @ [c]) (opening_tag n)" if "n \<in> set T" for n
    proof
      assume "endsWith (accumulator st @ [c]) (opening_tag n)"
      then have "sublist (opening_tag n) (accumulator st @ [c])"
        by (simp only: endsWith_suffix suffix_imp_sublist)
      then have "sublist (opening_tag n) ((accumulator st @ [c]) @ s)"
        by (simp only: sublist_append simp_thms)
      with Cons.prems(2) that show False by simp
    qed
    then show ?thesis by (auto simp: find_None_iff)
  qed
  note step = loop_body_text [OF Cons.prems(1) none, of P i]
  show ?case
  proof (cases "s = []")
    case True
    with step show ?thesis by simp
  next
    case False
    have tool: "currentToolUse (loop_body T P i c st) = None"
      using Cons.prems(1) by (simp add: step)
    have tags: "\<forall>n\<in>set T. \<not> sublist (opening_tag n) (accumulator (loop_body T P i c st) @ s)"
      using Cons.prems(2) by simp
    from Cons.IH [OF tool tags False, of "Suc i"] show ?thesis
      by (simp add: step)
  qed
qed

lemma parse_without_tool_tag:
  assumes "\<forall>n\<in>set T. \<not> sublist (opening_tag n) B"
  shows "parseAssistantMessage T P B =
           (if B = [] then [] else [Text \<lparr>content = trim B, text_partial = True\<rparr>])"
proof (cases "B = []")
  case True
  then show ?thesis
    by (simp add: parseAssistantMessage_def scan_def finish_def initial_state_def)
next
  case False
  have "currentToolUse initial_state = None" by (simp add: initial_state_def)
  from run_text_no_tag [OF this _ False, of T P 0] assms False show ?thesis
    by (simp add: parseAssistantMessage_def scan_def finish_def initial_state_def)
qed

lemma prefix_up_to_delimiter:
  "x \<notin> set a \<Longrightarrow> x \<notin> set b \<Longrightarrow> a @ x # r = b @ x # r' \<Longrightarrow> a = b"
  by (auto simp: append_eq_append_conv2 Cons_eq_append_conv append_eq_Cons_conv)

lemma not_sublist_unknown_tag:
  assumes n: "tag_name n" and ne: "n \<noteq> ''notARealTool''"
  shows "\<not> sublist (opening_tag n) ''<notARealTool>hi</notARealTool>''"
proof
  note nD = tag_nameD [OF n]
  assume "sublist (opening_tag n) ''<notARealTool>hi</notARealTool>''"
  then have "prefix (n @ ''>'') ''notARealTool>hi</notARealTool>'' \<or>
             prefix (n @ ''>'') ''/notARealTool>''"
    by (simp add: sublist_Cons_right opening_tag_def)
  then show False
  proof
    assume "prefix (n @ ''>'') ''notARealTool>hi</notARealTool>''"
    then obtain r where "n @ CHR ''>'' # r = ''notARealTool'' @ CHR ''>'' # ''hi</notARealTool>''"
      by (auto simp: prefix_def)
    from prefix_up_to_delimiter [OF nD(3) _ this] have "n = ''notARealTool''" by simp
    with ne show False by simp
  next
    assume "prefix (n @ ''>'') ''/notARealTool>''"
    then obtain r where "n @ CHR ''>'' # r = ''/notARealTool'' @ CHR ''>'' # []"
      by (auto simp: prefix_def)
    from prefix_up_to_delimiter [OF nD(3) _ this] have "n = ''/notARealTool''" by simp
    with nD(4) show False by simp
  qed
qed

section \<open>Small facts for the examples\<close>


lemma map_of_set_param [simp]: "map_of (set_param k v ps) k = Some v"
  by (induction ps) auto



section \<open>Searching for the content delimiters\<close>


lemma indexOf_prefix [simp]: "indexOf (t @ r) t = 0"
proof (cases "t @ r")
  case Nil
  then show ?thesis by (simp add: indexOf_def)
next
  case (Cons c cs)
  have "take (length t) (t @ r) = t" by simp
  with Cons have "startsWith (c # cs) t" by (simp add: startsWith_def)
  with Cons show ?thesis by (simp add: indexOf_def)
qed











section \<open>Scanning the content of write\_to\_file\<close>













section \<open>The thinking budget\<close>





section \<open>The request of the prompt-caching models\<close>


lemma userMsgIndices_from_filter:
  "userMsgIndices_from i msgs acc =
     acc @ map (\<lambda>j. i + j) (filter (\<lambda>j. role (msgs ! j) = User) [0..<length msgs])"
proof (induction msgs arbitrary: i acc)
  case Nil
  show ?case by simp
next
  case (Cons msg msgs)
  have upt: "[0..<length (msg # msgs)] = 0 # map Suc [0..<length msgs]"
    by (simp add: upt_conv_Cons map_Suc_upt del: upt_Suc)
  show ?case
    unfolding upt by (simp add: Cons.IH filter_map o_def)
qed

lemma userMsgIndices_filter:
  "userMsgIndices messages = filter (\<lambda>j. role (messages ! j) = User) [0..<length messages]"
  by (simp add: userMsgIndices_def userMsgIndices_from_filter)

lemma map_messages_from_length [simp]:
  "length (map_messages_from a b i msgs) = length msgs"
  by (induction msgs arbitrary: i) simp_all

lemma map_messages_from_nth:
  "k < length msgs \<Longrightarrow>
   map_messages_from a b i msgs ! k =
     (if int (i + k) = a \<or> int (i + k) = b then with_cache_control (msgs ! k) else msgs ! k)"
proof (induction msgs arbitrary: i k)
  case Nil
  then show ?case by simp
next
  case (Cons msg msgs)
  show ?case
  proof (cases k)
    case 0
    then show ?thesis by simp
  next
    case (Suc k')
    with Cons.prems have "k' < length msgs" by simp
    from Cons.IH [OF this, of "Suc i"] Suc show ?thesis by simp
  qed
qed

lemma mark_last_from_butlast:
  "mark_last_from (j + length cs) j cs =
     (if cs = [] then [] else butlast cs @ [(last cs)\<lparr>cache_control := Some Ephemeral\<rparr>])"
proof (induction cs arbitrary: j)
  case Nil
  show ?case by simp
next
  case (Cons c cs)
  have "mark_last_from (j + length (c # cs)) (Suc j) cs = mark_last_from (Suc j + length cs) (Suc j) cs"
    by simp
  with Cons.IH [of "Suc j"] show ?case by (cases cs) auto
qed

lemma with_cache_control_marked: "with_cache_control message = marked_on_last_part message"
proof -
  have "mark_last_from (length cs) 0 cs =
     (if cs = [] then [] else butlast cs @ [(last cs)\<lparr>cache_control := Some Ephemeral\<rparr>])" for cs
    using mark_last_from_butlast [of 0 cs] by simp
  then show ?thesis
    by (cases message) (simp add: with_cache_control_def marked_on_last_part_def split: MessageContent.split)
qed


lemma drop_as_map_nth: "drop k xs = map ((!) xs) [k..<length xs]"
proof -
  have "drop k xs = drop k (map ((!) xs) [0..<length xs])" by (simp add: map_nth)
  also have "\<dots> = map ((!) xs) (drop k [0..<length xs])" by (rule drop_map)
  finally show ?thesis by simp
qed

lemma count_users_after:
  "length (filter (\<lambda>msg. role msg = User) (drop (Suc i) messages)) =
   length (filter (\<lambda>j. role (messages ! j) = User) [Suc i..<length messages])"
  by (simp add: drop_as_map_nth [of "Suc i" messages] filter_map o_def)

lemma user_indices_split:
  assumes "i < n" and "Q i"
  shows "filter Q [0..<n] = filter Q [0..<i] @ i # filter Q [Suc i..<n]"
proof -
  have "[0..<i + (n - i)] = [0..<i] @ [i..<i + (n - i)]"
    by (rule upt_add_eq_append) simp
  with assms(1) have "[0..<n] = [0..<i] @ [i..<n]" by simp
  also from assms(1) have "[i..<n] = i # [Suc i..<n]" by (rule upt_conv_Cons)
  finally show ?thesis using assms(2) by simp
qed

lemma last_two_indices_iff:
  fixes messages :: "MessageParam list"
  defines "U \<equiv> userMsgIndices messages"
  assumes i: "i < length messages"
  shows "(int i = index_or_minus_one U (int (length U) - 1) \<or>
          int i = index_or_minus_one U (int (length U) - 2)) \<longleftrightarrow>
         is_last_or_second_last_user messages i"
proof -
  let ?Q = "\<lambda>j. role (messages ! j) = User"
  let ?n = "length messages"
  let ?A = "filter ?Q [0..<i]" and ?B = "filter ?Q [Suc i..<?n]"
  have U: "U = filter ?Q [0..<?n]"
    by (simp add: U_def userMsgIndices_filter)
  have dist: "distinct U" by (simp add: U)
  have spec: "is_last_or_second_last_user messages i \<longleftrightarrow> ?Q i \<and> length ?B < 2"
    using i by (simp add: is_last_or_second_last_user_def count_users_after)
  have split: "U = ?A @ i # ?B" if "?Q i"
    unfolding U using i that by (rule user_indices_split)
  have in_U: "?Q i" if "i \<in> set U"
    using that by (simp add: U)
  have after: "i < j" if "j \<in> set ?B" for j
    using that by simp
  have idx: "nat (int (length U) - 1) = length U - 1" "nat (int (length U) - 2) = length U - 2"
    by linarith+
  show ?thesis
  proof
    assume "int i = index_or_minus_one U (int (length U) - 1) \<or>
            int i = index_or_minus_one U (int (length U) - 2)"
    then consider (last) "U \<noteq> []" "i = U ! (length U - 1)"
      | (second) "2 \<le> length U" "i = U ! (length U - 2)"
      by (auto simp: index_or_minus_one_def idx split: if_splits)
    then show "is_last_or_second_last_user messages i"
    proof cases
      case last
      then have "i \<in> set U" by simp
      then have Q: "?Q i" by (rule in_U)
      note s = split [OF Q]
      have "?B = []"
      proof (rule ccontr)
        assume "?B \<noteq> []"
        then have "last U = last ?B" by (subst s) simp
        moreover from \<open>?B \<noteq> []\<close> have "last ?B \<in> set ?B" by (rule last_in_set)
        then have "i < last ?B" by (rule after)
        moreover from last have "last U = i" by (simp add: last_conv_nth)
        ultimately show False by simp
      qed
      with Q show ?thesis by (simp add: spec)
    next
      case second
      then have "i \<in> set U" by simp
      then have Q: "?Q i" by (rule in_U)
      note s = split [OF Q]
      have len: "length U = length ?A + 1 + length ?B" by (subst s) simp
      have "U ! length ?A = i" by (subst s) simp
      with second(2) have "U ! (length U - 2) = U ! length ?A" by simp
      moreover have "length U - 2 < length U" "length ?A < length U"
        using second(1) len by simp_all
      ultimately have "length U - 2 = length ?A"
        using dist by (simp add: nth_eq_iff_index_eq)
      with len second(1) have "length ?B = 1" by simp
      with Q show ?thesis by (simp add: spec)
    qed
  next
    assume "is_last_or_second_last_user messages i"
    then have Q: "?Q i" and B: "length ?B < 2" by (simp_all add: spec)
    note s = split [OF Q]
    have len: "length U = length ?A + 1 + length ?B" by (subst s) simp
    have at: "U ! length ?A = i" by (subst s) simp
    from B consider "length ?B = 0" | "length ?B = 1" by linarith
    then show "int i = index_or_minus_one U (int (length U) - 1) \<or>
            int i = index_or_minus_one U (int (length U) - 2)"
    proof cases
      case 1
      with len have "length U - 1 = length ?A" "U \<noteq> []" by auto
      with at have "index_or_minus_one U (int (length U) - 1) = int i"
        by (simp add: index_or_minus_one_def idx)
      then show ?thesis by simp
    next
      case 2
      with len have "length U - 2 = length ?A" "2 \<le> length U" by auto
      with at have "index_or_minus_one U (int (length U) - 2) = int i"
        by (simp add: index_or_minus_one_def idx)
      then show ?thesis by simp
    qed
  qed
qed

section \<open>Usage chunks and the two paths of the OpenAI handler\<close>


lemma or_undefined_not_zero [simp]: "or_undefined x \<noteq> Some 0"
  by (simp add: or_undefined_def split: option.split)

lemma or_undefined_None [simp]: "or_undefined None = None"
  by (simp add: or_undefined_def)

lemma or_zero_eq: "or_zero x = (case x of Some n \<Rightarrow> n | None \<Rightarrow> 0)"
  by (simp add: or_zero_def split: option.split)







lemma openai_createMessage_non_streaming:
  assumes "openAiStreamingEnabled options = Some False"
  shows "\<exists>req. oa_stream req = False \<and>
          openai_createMessage env options systemPrompt messages =
           ([NonStreamingCall req],
            case create_completion env req of
              Inl e \<Rightarrow> Inl e
            | Inr response \<Rightarrow>
                Inr [ApiStreamTextChunk
                       (case choices response of
                          [] \<Rightarrow> []
                        | c # _ \<Rightarrow> (case choice_content c of Some s \<Rightarrow> s | None \<Rightarrow> [])),
                     processUsageMetrics (usage response)])"
proof -
  let ?req = "\<lparr>oa_model = (case openAiModelId options of Some m \<Rightarrow> m | None \<Rightarrow> []),
                   oa_temperature = None,
                   oa_messages =
                     (if string_includes (case openAiModelId options of Some m \<Rightarrow> m | None \<Rightarrow> [])
                           ''deepseek-reasoner''
                      then convertToR1Format env
                             (\<lparr>role = User, message_content = Plain systemPrompt\<rparr> # messages)
                      else ChatMessage ''user'' (Plain systemPrompt) #
                             convertToOpenAiMessages env messages),
                   oa_stream = False,
                   oa_include_usage = False,
                   oa_max_tokens = None\<rparr>"
  have "openai_createMessage env options systemPrompt messages =
           ([NonStreamingCall ?req],
            case create_completion env ?req of
              Inl e \<Rightarrow> Inl e
            | Inr response \<Rightarrow>
                Inr [ApiStreamTextChunk
                       (case choices response of
                          [] \<Rightarrow> []
                        | c # _ \<Rightarrow> (case choice_content c of Some s \<Rightarrow> s | None \<Rightarrow> [])),
                     processUsageMetrics (usage response)])"
    unfolding openai_createMessage_def Let_def using assms by simp
  moreover have "oa_stream ?req = False" by simp
  ultimately show ?thesis by blast
qed

section \<open>C1: round trip on well-formed input\<close>



section \<open>C4: partial tail\<close>




section \<open>C6: unknown tags are text, and the parser is total\<close>

text \<open>
  Claim C6. \<open>parseAssistantMessage\<close> is a total function: the loop is a structural
  recursion over the characters of the input, and no branch of the source raises, so every
  input has a block list. A buffer in which no opening delimiter of the tool vocabulary
  occurs parses to a single text block holding the whole buffer, trimmed. In particular
  \<open><notARealTool>hi</notARealTool>\<close> parses to one text block holding that string
  unchanged, for every curated tool vocabulary without \<open>notARealTool\<close>.
\<close>

theorem unknown_tag_is_text:
  "((\<forall>n\<in>set toolUseNames. \<not> sublist (opening_tag n) B) \<longrightarrow>
      parseAssistantMessage toolUseNames toolParamNames B =
        (if B = [] then [] else [Text \<lparr>content = trim B, text_partial = True\<rparr>])) \<and>
   (list_all tag_name toolUseNames \<and> ''notARealTool'' \<notin> set toolUseNames \<longrightarrow>
      parseAssistantMessage toolUseNames toolParamNames ''<notARealTool>hi</notARealTool>'' =
        [Text \<lparr>content = ''<notARealTool>hi</notARealTool>'', text_partial = True\<rparr>])"
proof (intro conjI impI)
  assume "\<forall>n\<in>set toolUseNames. \<not> sublist (opening_tag n) B"
  then show "parseAssistantMessage toolUseNames toolParamNames B =
        (if B = [] then [] else [Text \<lparr>content = trim B, text_partial = True\<rparr>])"
    by (rule parse_without_tool_tag)
next
  assume a: "list_all tag_name toolUseNames \<and> ''notARealTool'' \<notin> set toolUseNames"
  have "\<forall>n\<in>set toolUseNames. \<not> sublist (opening_tag n) ''<notARealTool>hi</notARealTool>''"
  proof
    fix n assume "n \<in> set toolUseNames"
    with a have "tag_name n" and "n \<noteq> ''notARealTool''"
      by (auto simp: list_all_iff)
    then show "\<not> sublist (opening_tag n) ''<notARealTool>hi</notARealTool>''"
      by (rule not_sublist_unknown_tag)
  qed
  from parse_without_tool_tag [OF this, of toolParamNames]
  have "parseAssistantMessage toolUseNames toolParamNames ''<notARealTool>hi</notARealTool>'' =
      [Text \<lparr>content = trim ''<notARealTool>hi</notARealTool>'', text_partial = True\<rparr>]"
    by simp
  moreover have "trim ''<notARealTool>hi</notARealTool>'' = ''<notARealTool>hi</notARealTool>''"
    by (simp add: trim_def isWhiteSpace_def)
  ultimately show "parseAssistantMessage toolUseNames toolParamNames ''<notARealTool>hi</notARealTool>'' =
        [Text \<lparr>content = ''<notARealTool>hi</notARealTool>'', text_partial = True\<rparr>]"
    by simp
qed

theorem unknown_tag_is_text_witness:
  "\<not> sublist (opening_tag ''read_file'') ''a < b and <b>bold</b> <read_file'' \<and>
   \<not> sublist (opening_tag ''write_to_file'') ''a < b and <b>bold</b> <read_file'' \<and>
   parseAssistantMessage [''read_file'', ''write_to_file''] [''path'', ''content'']
      ''a < b and <b>bold</b> <read_file'' =
     [Text \<lparr>content = ''a < b and <b>bold</b> <read_file'', text_partial = True\<rparr>] \<and>
   list_all tag_name [''read_file'', ''write_to_file''] \<and>
   ''notARealTool'' \<notin> set [''read_file'', ''write_to_file''] \<and>
   parseAssistantMessage [''read_file'', ''write_to_file''] [''path'', ''content'']
      ''<notARealTool>hi</notARealTool>'' =
     [Text \<lparr>content = ''<notARealTool>hi</notARealTool>'', text_partial = True\<rparr>]"
proof -
  let ?T = "[''read_file'', ''write_to_file'']" and ?P = "[''path'', ''content'']"
  have h1: "\<forall>n\<in>set ?T. \<not> sublist (opening_tag n) ''a < b and <b>bold</b> <read_file''"
    by (simp add: opening_tag_def sublist_Cons_right)
  have h2: "list_all tag_name ?T \<and> ''notARealTool'' \<notin> set ?T"
    by (simp add: tag_name_def isWhiteSpace_def)
  have t: "trim ''a < b and <b>bold</b> <read_file'' = ''a < b and <b>bold</b> <read_file''"
    by (simp add: trim_def isWhiteSpace_def)
  from unknown_tag_is_text [of ?T "''a < b and <b>bold</b> <read_file''" ?P] h1 h2 t
  show ?thesis by simp
qed

section \<open>C3: closing delimiters embedded in the content of write\_to\_file\<close>




section \<open>C7: temperature and thinking budget of a thinking model\<close>




section \<open>C8: cache markers on the last two user messages\<close>

text \<open>
  Claim C8. For a model of the prompt-caching family, the messages of the request are the
  messages of the history, in order, where exactly the last and the second-to-last
  message with the user role carry the ephemeral cache marker, on their last content part
  only (a plain string becomes one marked text part), and every other message is passed on
  unchanged.
\<close>

theorem cache_markers_on_last_two_user_messages:
  assumes "model_id m \<in> set prompt_caching_models"
  shows "length (req_messages (createMessage_request m systemPrompt messages)) = length messages \<and>
    (\<forall>i<length messages.
       req_messages (createMessage_request m systemPrompt messages) ! i =
         (if is_last_or_second_last_user messages i
          then marked_on_last_part (messages ! i) else messages ! i))"
proof -
  let ?U = "userMsgIndices messages"
  let ?last = "index_or_minus_one ?U (int (length ?U) - 1)"
  let ?second = "index_or_minus_one ?U (int (length ?U) - 2)"
  have req: "req_messages (createMessage_request m systemPrompt messages) =
      map_messages_from ?last ?second 0 messages"
    using assms by (simp add: createMessage_request_def Let_def)
  have "map_messages_from ?last ?second 0 messages ! i =
         (if is_last_or_second_last_user messages i
          then marked_on_last_part (messages ! i) else messages ! i)"
    if "i < length messages" for i
    using map_messages_from_nth [OF that, of ?last ?second 0] last_two_indices_iff [OF that]
    by (simp add: with_cache_control_marked)
  then show ?thesis by (simp add: req)
qed

theorem cache_markers_on_last_two_user_messages_witness:
  "model_id \<lparr>model_id = ''claude-3-5-sonnet-20241022'',
             info = \<lparr>info_maxTokens = Some 8192, info_thinking = None\<rparr>,
             temperature = 0, maxTokens = 8192, thinking = None\<rparr> \<in> set prompt_caching_models \<and>
   req_messages (createMessage_request
      \<lparr>model_id = ''claude-3-5-sonnet-20241022'',
       info = \<lparr>info_maxTokens = Some 8192, info_thinking = None\<rparr>,
       temperature = 0, maxTokens = 8192, thinking = None\<rparr>
      ''system''
      [\<lparr>role = User, message_content = Plain ''a''\<rparr>,
       \<lparr>role = Assistant, message_content = Plain ''b''\<rparr>,
       \<lparr>role = User, message_content =
          Blocks [\<lparr>block_body = TextBody ''x'', cache_control = None\<rparr>,
                  \<lparr>block_body = ImageBody ''y'', cache_control = None\<rparr>]\<rparr>,
       \<lparr>role = Assistant, message_content = Plain ''c''\<rparr>,
       \<lparr>role = User, message_content = Plain ''d''\<rparr>]) =
     [\<lparr>role = User, message_content = Plain ''a''\<rparr>,
      \<lparr>role = Assistant, message_content = Plain ''b''\<rparr>,
      \<lparr>role = User, message_content =
         Blocks [\<lparr>block_body = TextBody ''x'', cache_control = None\<rparr>,
                 \<lparr>block_body = ImageBody ''y'', cache_control = Some Ephemeral\<rparr>]\<rparr>,
      \<lparr>role = Assistant, message_content = Plain ''c''\<rparr>,
      \<lparr>role = User, message_content =
         Blocks [\<lparr>block_body = TextBody ''d'', cache_control = Some Ephemeral\<rparr>]\<rparr>]"
proof -
  let ?m = "\<lparr>model_id = ''claude-3-5-sonnet-20241022'',
             info = \<lparr>info_maxTokens = Some 8192, info_thinking = None\<rparr>,
             temperature = 0, maxTokens = 8192, thinking = None\<rparr>"
  let ?ms = "[\<lparr>role = User, message_content = Plain ''a''\<rparr>,
       \<lparr>role = Assistant, message_content = Plain ''b''\<rparr>,
       \<lparr>role = User, message_content =
          Blocks [\<lparr>block_body = TextBody ''x'', cache_control = None\<rparr>,
                  \<lparr>block_body = ImageBody ''y'', cache_control = None\<rparr>]\<rparr>,
       \<lparr>role = Assistant, message_content = Plain ''c''\<rparr>,
       \<lparr>role = User, message_content = Plain ''d''\<rparr>]"
  let ?out = "req_messages (createMessage_request ?m ''system'' ?ms)"
  have family: "model_id ?m \<in> set prompt_caching_models"
    by (simp add: prompt_caching_models_def)
  note marks = cache_markers_on_last_two_user_messages [OF family, of "''system''" ?ms]
  have which: "\<not> is_last_or_second_last_user ?ms 0" "\<not> is_last_or_second_last_user ?ms 1"
    "is_last_or_second_last_user ?ms 2" "\<not> is_last_or_second_last_user ?ms 3"
    "is_last_or_second_last_user ?ms 4"
    by (simp_all add: is_last_or_second_last_user_def)
  from marks have len: "length ?out = 5" by simp
  from marks have "?out ! 0 = ?ms ! 0" "?out ! 1 = ?ms ! 1" "?out ! 2 = marked_on_last_part (?ms ! 2)"
    "?out ! 3 = ?ms ! 3" "?out ! 4 = marked_on_last_part (?ms ! 4)"
    using which by simp_all
  then have nths: "?out ! 0 = \<lparr>role = User, message_content = Plain ''a''\<rparr>"
    "?out ! 1 = \<lparr>role = Assistant, message_content = Plain ''b''\<rparr>"
    "?out ! 2 = \<lparr>role = User, message_content =
         Blocks [\<lparr>block_body = TextBody ''x'', cache_control = None\<rparr>,
                 \<lparr>block_body = ImageBody ''y'', cache_control = Some Ephemeral\<rparr>]\<rparr>"
    "?out ! 3 = \<lparr>role = Assistant, message_content = Plain ''c''\<rparr>"
    "?out ! 4 = \<lparr>role = User, message_content =
         Blocks [\<lparr>block_body = TextBody ''d'', cache_control = Some Ephemeral\<rparr>]\<rparr>"
    by (simp_all add: marked_on_last_part_def)
  have "?out = [?out ! 0, ?out ! 1, ?out ! 2, ?out ! 3, ?out ! 4]"
    using len by (intro nth_equalityI) (auto simp: nth_Cons' less_Suc_eq numeral_eq_Suc)
  with nths family show ?thesis by simp
qed

section \<open>C9: the non-streaming fallback of the OpenAI handler\<close>

text \<open>
  Claim C9. With \<open>openAiStreamingEnabled\<close> set to false, \<open>createMessage\<close> makes one
  call to the provider, a non-streaming one, and when the call answers it yields exactly
  two chunks: a text chunk with the content of the first choice of the response (empty
  when there is none) and then a usage chunk, the same chunk shapes as the streaming path
  yields.
\<close>

theorem non_streaming_fallback_yields_text_then_usage:
  assumes "openAiStreamingEnabled options = Some False"
  shows "\<exists>req.
     fst (openai_createMessage env options systemPrompt messages) = [NonStreamingCall req] \<and>
     oa_stream req = False \<and>
     (\<forall>response. create_completion env req = Inr response \<longrightarrow>
        snd (openai_createMessage env options systemPrompt messages) =
          Inr [ApiStreamTextChunk
                 (case choices response of
                    [] \<Rightarrow> []
                  | c # _ \<Rightarrow> (case choice_content c of Some s \<Rightarrow> s | None \<Rightarrow> [])),
               UsageChunk
                 \<lparr>inputTokens =
                    (case usage response of
                       Some x \<Rightarrow> (case prompt_tokens x of Some n \<Rightarrow> n | None \<Rightarrow> 0)
                     | None \<Rightarrow> 0),
                  outputTokens =
                    (case usage response of
                       Some x \<Rightarrow> (case completion_tokens x of Some n \<Rightarrow> n | None \<Rightarrow> 0)
                     | None \<Rightarrow> 0),
                  cacheWriteTokens = None, cacheReadTokens = None\<rparr>])"
proof -
  from openai_createMessage_non_streaming [OF assms, of env systemPrompt messages]
  obtain req where req: "oa_stream req = False"
    "openai_createMessage env options systemPrompt messages =
           ([NonStreamingCall req],
            case create_completion env req of
              Inl e \<Rightarrow> Inl e
            | Inr response \<Rightarrow>
                Inr [ApiStreamTextChunk
                       (case choices response of
                          [] \<Rightarrow> []
                        | c # _ \<Rightarrow> (case choice_content c of Some s \<Rightarrow> s | None \<Rightarrow> [])),
                     processUsageMetrics (usage response)])"
    by blast
  have "processUsageMetrics u =
        UsageChunk
                 \<lparr>inputTokens =
                    (case u of
                       Some x \<Rightarrow> (case prompt_tokens x of Some n \<Rightarrow> n | None \<Rightarrow> 0)
                     | None \<Rightarrow> 0),
                  outputTokens =
                    (case u of
                       Some x \<Rightarrow> (case completion_tokens x of Some n \<Rightarrow> n | None \<Rightarrow> 0)
                     | None \<Rightarrow> 0),
                  cacheWriteTokens = None, cacheReadTokens = None\<rparr>" for u
    by (simp add: processUsageMetrics_def or_zero_eq split: option.split)
  with req show ?thesis
    by (intro exI [of _ req]) simp
qed

theorem non_streaming_fallback_yields_text_then_usage_witness:
  "openAiStreamingEnabled
     \<lparr>apiModelId = None, modelTemperature = None, modelMaxTokens = None,
      modelMaxThinkingTokens = None, openAiBaseUrl = None, openAiModelId = Some ''o1'',
      openAiStreamingEnabled = Some False, includeMaxTokens = None,
      openAiCustomModelInfo = None\<rparr> = Some False \<and>
   openai_createMessage
     \<lparr>convertToOpenAiMessages = map (\<lambda>msg. ChatMessage ''user'' (message_content msg)),
      convertToR1Format = map (\<lambda>msg. ChatMessage ''user'' (message_content msg)),
      convertToSimpleMessages = map (\<lambda>msg. ChatMessage ''user'' (message_content msg)),
      openAiModelInfoSaneDefaults = \<lparr>info_maxTokens = None, info_thinking = None\<rparr>,
      create_streaming = (\<lambda>req. Inr []),
      create_completion = (\<lambda>req. Inr \<lparr>choices = [\<lparr>choice_content = Some ''hello''\<rparr>],
          usage = Some \<lparr>prompt_tokens = Some 10, completion_tokens = Some 5\<rparr>\<rparr>)\<rparr>
     \<lparr>apiModelId = None, modelTemperature = None, modelMaxTokens = None,
      modelMaxThinkingTokens = None, openAiBaseUrl = None, openAiModelId = Some ''o1'',
      openAiStreamingEnabled = Some False, includeMaxTokens = None,
      openAiCustomModelInfo = None\<rparr>
     ''be brief'' [\<lparr>role = User, message_content = Plain ''hi''\<rparr>] =
   ([NonStreamingCall
       \<lparr>oa_model = ''o1'', oa_temperature = None,
        oa_messages = [ChatMessage ''user'' (Plain ''be brief''), ChatMessage ''user'' (Plain ''hi'')],
        oa_stream = False, oa_include_usage = False, oa_max_tokens = None\<rparr>],
    Inr [ApiStreamTextChunk ''hello'',
         UsageChunk \<lparr>inputTokens = 10, outputTokens = 5,
                     cacheWriteTokens = None, cacheReadTokens = None\<rparr>])"
proof -
  let ?options = "\<lparr>apiModelId = None, modelTemperature = None, modelMaxTokens = None,
      modelMaxThinkingTokens = None, openAiBaseUrl = None, openAiModelId = Some ''o1'',
      openAiStreamingEnabled = Some False, includeMaxTokens = None,
      openAiCustomModelInfo = None\<rparr>"
  let ?env = "\<lparr>convertToOpenAiMessages = map (\<lambda>msg. ChatMessage ''user'' (message_content msg)),
      convertToR1Format = map (\<lambda>msg. ChatMessage ''user'' (message_content msg)),
      convertToSimpleMessages = map (\<lambda>msg. ChatMessage ''user'' (message_content msg)),
      openAiModelInfoSaneDefaults = \<lparr>info_maxTokens = None, info_thinking = None\<rparr>,
      create_streaming = (\<lambda>req. Inr []),
      create_completion = (\<lambda>req. Inr \<lparr>choices = [\<lparr>choice_content = Some ''hello''\<rparr>],
          usage = Some \<lparr>prompt_tokens = Some 10, completion_tokens = Some 5\<rparr>\<rparr>)\<rparr>"
  let ?run = "openai_createMessage ?env ?options ''be brief'' [\<lparr>role = User, message_content = Plain ''hi''\<rparr>]"
  have off: "openAiStreamingEnabled ?options = Some False" by simp
  from non_streaming_fallback_yields_text_then_usage [OF off, of ?env "''be brief''"
      "[\<lparr>role = User, message_content = Plain ''hi''\<rparr>]"]
  obtain req where req: "fst ?run = [NonStreamingCall req]"
    and events: "snd ?run =
          Inr [ApiStreamTextChunk ''hello'',
               UsageChunk \<lparr>inputTokens = 10, outputTokens = 5,
                  cacheWriteTokens = None, cacheReadTokens = None\<rparr>]"
    by auto
  have "fst ?run = [NonStreamingCall
       \<lparr>oa_model = ''o1'', oa_temperature = None,
        oa_messages = [ChatMessage ''user'' (Plain ''be brief''), ChatMessage ''user'' (Plain ''hi'')],
        oa_stream = False, oa_include_usage = False, oa_max_tokens = None\<rparr>]"
    by (simp add: openai_createMessage_def Let_def string_includes_def sublist_Cons_right)
  with events off show ?thesis
    by (simp add: prod_eq_iff)
qed

section \<open>C10: cache token counts are absent, never zero\<close>




end
